theory Spec2Isabelle
  imports Main "HOL-Library.Product_Lexorder"
begin

section \<open>Top sites of the new-tab page (app/browser/api/topSites.js)\<close>

subsection \<open>Data\<close>

text \<open>
  A site is an Immutable.js map. The fields the module reads or writes are modelled;
  a field that may be absent is an option (\<open>None\<close> is what \<open>get\<close> returns for an absent
  field, the JavaScript \<open>undefined\<close>). Counts and access times are JavaScript numbers
  that hold integers (a visit count, a timestamp in milliseconds).
  \<open>bookmarked\<close> holds what \<open>bookmarkKey.get(0, false)\<close> returns: the first cache key, or
  \<open>None\<close> for \<open>false\<close>.
\<close>

record site =
  key :: "string option"
  location :: "string option"
  count :: "int option"
  lastAccessedTime :: "int option"
  bookmarked :: "string option"

text \<open>
  What the module reads from the application state.
  \<open>historyState.getSites(state)\<close> is an Immutable.js map from history keys to sites; it
  is given as its entries in iteration order. \<open>aboutNewTabState.getPinnedTopSites(state)\<close>
  is a list whose entries are sites or null (\<open>None\<close>), and
  \<open>aboutNewTabState.getIgnoredTopSites(state)\<close> a list of keys.
\<close>

record state =
  getSites :: "(string \<times> site) list"
  getPinnedTopSites :: "site option list"
  getIgnoredTopSites :: "string option list"

text \<open>
  The collaborators whose code is outside this module are parameters:
  \<open>isSourceAboutUrl\<close> (js/lib/appUrlUtil), \<open>bookmarkLocationCache.getCacheKey\<close>, the URL
  parser (\<open>Inl e\<close> when it throws \<open>e\<close>, \<open>Inr h\<close> when the parsed URL has hostname \<open>h\<close>) and
  \<open>newTabData.topSites\<close>, the static catalog.
\<close>

record ('e, 'h) collaborators =
  isSourceAboutUrl :: "string option \<Rightarrow> bool"
  getCacheKey :: "state \<Rightarrow> string option \<Rightarrow> string list"
  urlParse :: "string \<Rightarrow> 'e + 'h"
  staticData :: "site list"

text \<open>The two module-level variables; \<open>None\<close> is \<open>undefined\<close>.\<close>

record cache =
  minCountOfTopSites :: "int option"
  minAccessOfTopSites :: "int option"

definition aboutNewTabMaxEntries :: nat where
  "aboutNewTabMaxEntries = 100"

subsection \<open>JavaScript operators on possibly absent values\<close>

text \<open>\<open>x || 0\<close> and \<open>get(field, 0)\<close> on a number or \<open>undefined\<close>.\<close>

definition orZero :: "int option \<Rightarrow> int" where
  "orZero v = (case v of None \<Rightarrow> 0 | Some n \<Rightarrow> n)"

text \<open>
  \<open>a < b\<close> on numbers or \<open>undefined\<close>: \<open>undefined\<close> converts to NaN, and every comparison
  with NaN is false.
\<close>

definition jsLess :: "int option \<Rightarrow> int option \<Rightarrow> bool" where
  "jsLess a b = (case a of None \<Rightarrow> False
                 | Some x \<Rightarrow> (case b of None \<Rightarrow> False | Some y \<Rightarrow> x < y))"

text \<open>\<open>!site.get('location')\<close> is false exactly for a non-empty string.\<close>

definition truthyLocation :: "site \<Rightarrow> string option" where
  "truthyLocation s = (case location s of None \<Rightarrow> None
                        | Some l \<Rightarrow> if l = [] then None else Some l)"

text \<open>\<open>bookmarkKey.get(0, false)\<close>.\<close>

definition firstOrFalse :: "string list \<Rightarrow> string option" where
  "firstOrFalse ks = (case ks of [] \<Rightarrow> None | k # _ \<Rightarrow> Some k)"

subsection \<open>isPinned, isIgnored, sortCountDescending\<close>

definition isPinned :: "state \<Rightarrow> string option \<Rightarrow> bool" where
  "isPinned st siteKey =
     list_ex (\<lambda>p. case p of None \<Rightarrow> False | Some s \<Rightarrow> key s = siteKey)
       (getPinnedTopSites st)"

definition isIgnored :: "state \<Rightarrow> string option \<Rightarrow> bool" where
  "isIgnored st siteKey = (siteKey \<in> set (getIgnoredTopSites st))"

definition sortCountDescending :: "site \<Rightarrow> site \<Rightarrow> int" where
  "sortCountDescending left right =
     (let leftCount = orZero (count left);
          rightCount = orZero (count right)
      in if leftCount < rightCount then 1
         else if leftCount > rightCount then - 1
         else if jsLess (lastAccessedTime left) (lastAccessedTime right) then 1
         else if jsLess (lastAccessedTime right) (lastAccessedTime left) then - 1
         else 0)"

text \<open>
  Immutable.js \<open>sort(comparator)\<close> is a stable sort: it orders by the comparator and
  breaks a comparator result of 0 by the position in the input. The model inserts each
  element, from the last to the first, before the first element it does not come
  after. Where the comparator is not a consistent order on the input, the result of the
  JavaScript sort depends on the engine and the model is one possible result; on one or
  two elements, and wherever all access times are present, the comparator is consistent.
\<close>

fun insortWith :: "('a \<Rightarrow> 'a \<Rightarrow> int) \<Rightarrow> 'a \<Rightarrow> 'a list \<Rightarrow> 'a list" where
  "insortWith cmp x [] = [x]"
| "insortWith cmp x (y # ys) =
     (if cmp x y \<le> 0 then x # y # ys else y # insortWith cmp x ys)"

definition sortWith :: "('a \<Rightarrow> 'a \<Rightarrow> int) \<Rightarrow> 'a list \<Rightarrow> 'a list" where
  "sortWith cmp xs = foldr (insortWith cmp) xs []"

subsection \<open>removeDuplicateDomains\<close>

text \<open>
  The filter callback with the set \<open>siteDomains\<close> threaded through; the second component
  collects what \<open>console.error\<close> is called with, in order.
\<close>

fun removeDuplicateDomainsFrom ::
  "(string \<Rightarrow> 'e + 'h) \<Rightarrow> 'h set \<Rightarrow> site list \<Rightarrow> site list \<times> 'e list" where
  "removeDuplicateDomainsFrom parse siteDomains [] = ([], [])"
| "removeDuplicateDomainsFrom parse siteDomains (s # rest) =
     (case truthyLocation s of
        None \<Rightarrow> removeDuplicateDomainsFrom parse siteDomains rest
      | Some l \<Rightarrow>
          (case parse l of
             Inl e \<Rightarrow>
               (case removeDuplicateDomainsFrom parse siteDomains rest of
                  (kept, logged) \<Rightarrow> (kept, e # logged))
           | Inr hostname \<Rightarrow>
               if hostname \<notin> siteDomains
               then (case removeDuplicateDomainsFrom parse (insert hostname siteDomains) rest of
                       (kept, logged) \<Rightarrow> (s # kept, logged))
               else removeDuplicateDomainsFrom parse siteDomains rest))"

definition removeDuplicateDomains ::
  "(string \<Rightarrow> 'e + 'h) \<Rightarrow> site list \<Rightarrow> site list \<times> 'e list" where
  "removeDuplicateDomains parse list = removeDuplicateDomainsFrom parse {} list"

subsection \<open>getTopSiteData\<close>

text \<open>The predicate of the first \<open>filter\<close> (lines 90 to 94), on an entry of the history map.\<close>

definition isCandidate ::
  "('e, 'h) collaborators \<Rightarrow> state \<Rightarrow> cache \<Rightarrow> string \<times> site \<Rightarrow> bool" where
  "isCandidate ext st c entry =
     (case entry of (k, s) \<Rightarrow>
        \<not> isSourceAboutUrl ext (location s) \<and>
        \<not> isPinned st (Some k) \<and>
        \<not> isIgnored st (Some k) \<and>
        (case minCountOfTopSites c of None \<Rightarrow> True | Some m \<Rightarrow> orZero (count s) \<ge> m) \<and>
        (case minAccessOfTopSites c of None \<Rightarrow> True
         | Some m \<Rightarrow> orZero (lastAccessedTime s) \<ge> m))"

definition filteredSites ::
  "('e, 'h) collaborators \<Rightarrow> state \<Rightarrow> cache \<Rightarrow> (string \<times> site) list" where
  "filteredSites ext st c = filter (isCandidate ext st c) (getSites st)"

text \<open>\<open>.sort(sortCountDescending).slice(0, aboutNewTabMaxEntries)\<close>, still a keyed collection.\<close>

definition sortedSites ::
  "('e, 'h) collaborators \<Rightarrow> state \<Rightarrow> cache \<Rightarrow> (string \<times> site) list" where
  "sortedSites ext st c =
     take aboutNewTabMaxEntries
       (sortWith (\<lambda>a b. sortCountDescending (snd a) (snd b)) (filteredSites ext st c))"

text \<open>
  The callback of \<open>map\<close> (lines 98 to 104): on a keyed collection its second argument is
  the entry's key in the map.
\<close>

definition annotate :: "('e, 'h) collaborators \<Rightarrow> state \<Rightarrow> string \<times> site \<Rightarrow> site" where
  "annotate ext st entry =
     (case entry of (k, s) \<Rightarrow>
        s\<lparr>bookmarked := firstOrFalse (getCacheKey ext st (location s)), key := Some k\<rparr>)"

definition rankedSites :: "('e, 'h) collaborators \<Rightarrow> state \<Rightarrow> cache \<Rightarrow> site list" where
  "rankedSites ext st c = map (annotate ext st) (sortedSites ext st c)"

text \<open>The loop of lines 107 to 116.\<close>

fun updateWatermarks :: "site list \<Rightarrow> cache \<Rightarrow> cache" where
  "updateWatermarks [] c = c"
| "updateWatermarks (s # rest) c =
     (let cnt = orZero (count s);
          access = orZero (lastAccessedTime s);
          c1 = (case minCountOfTopSites c of
                  None \<Rightarrow> c\<lparr>minCountOfTopSites := Some cnt\<rparr>
                | Some m \<Rightarrow> if cnt < m then c\<lparr>minCountOfTopSites := Some cnt\<rparr> else c);
          c2 = (case minAccessOfTopSites c1 of
                  None \<Rightarrow> c1\<lparr>minAccessOfTopSites := Some access\<rparr>
                | Some m \<Rightarrow> if access < m then c1\<lparr>minAccessOfTopSites := Some access\<rparr> else c1)
      in updateWatermarks rest c2)"

text \<open>The static catalog entries that are appended (lines 123 to 131).\<close>

definition preDefined :: "('e, 'h) collaborators \<Rightarrow> state \<Rightarrow> site list" where
  "preDefined ext st =
     map (\<lambda>s. s\<lparr>bookmarked := firstOrFalse (getCacheKey ext st (location s))\<rparr>)
       (filter (\<lambda>s. \<not> isPinned st (key s) \<and> \<not> isIgnored st (key s)) (staticData ext))"

definition withPreDefined :: "('e, 'h) collaborators \<Rightarrow> state \<Rightarrow> site list \<Rightarrow> site list" where
  "withPreDefined ext st sites =
     (if length sites < 18 then sites @ preDefined ext st else sites)"

text \<open>
  The callback of the \<open>map\<close> over the pinned entries (lines 135 to 151): it returns the
  slot and the candidate list it leaves. \<open>first()\<close> of an empty list is \<open>undefined\<close>, and
  \<open>shift()\<close> leaves an empty list empty.
\<close>

fun fillSlot :: "site option \<Rightarrow> site list \<Rightarrow> site option \<times> site list" where
  "fillSlot (Some pinned) sites = (Some pinned, filter (\<lambda>s. key s \<noteq> key pinned) sites)"
| "fillSlot None [] = (None, [])"
| "fillSlot None (firstSite # rest) = (Some firstSite, rest)"

fun gridSlots :: "site option list \<Rightarrow> site list \<Rightarrow> site option list" where
  "gridSlots [] sites = []"
| "gridSlots (pinned # pins) sites =
     (case fillSlot pinned sites of (slot, sites') \<Rightarrow> slot # gridSlots pins sites')"

text \<open>The candidate list that is left when the given pinned entries have been handled.\<close>

fun sitesAfter :: "site option list \<Rightarrow> site list \<Rightarrow> site list" where
  "sitesAfter [] sites = sites"
| "sitesAfter (pinned # pins) sites = sitesAfter pins (snd (fillSlot pinned sites))"

text \<open>\<open>gridSites.filter(site => site != null)\<close>.\<close>

definition dropEmpty :: "site option list \<Rightarrow> site list" where
  "dropEmpty slots = List.map_filter (\<lambda>slot. slot) slots"

text \<open>
  One run: the grid passed to \<open>appActions.topSiteDataAvailable\<close>, the cache it leaves, and
  what was logged.
\<close>

record 'e run =
  grid :: "site list"
  cacheAfter :: cache
  logged :: "'e list"

definition getTopSiteData :: "('e, 'h) collaborators \<Rightarrow> state \<Rightarrow> cache \<Rightarrow> 'e run" where
  "getTopSiteData ext st c =
     (let sites = rankedSites ext st c;
          c' = updateWatermarks sites c;
          (sites1, errs) = removeDuplicateDomains (urlParse ext) sites;
          sites2 = withPreDefined ext st sites1
      in \<lparr>grid = dropEmpty (gridSlots (getPinnedTopSites st) sites2),
          cacheAfter = c',
          logged = errs\<rparr>)"

text \<open>\<open>clearTopSiteCacheData\<close> sets both variables to \<open>undefined\<close>.\<close>

definition clearTopSiteCacheData :: "cache \<Rightarrow> cache" where
  "clearTopSiteCacheData c = c\<lparr>minCountOfTopSites := None, minAccessOfTopSites := None\<rparr>"

text \<open>
  \<open>calculateTopSites(clearCache, true)\<close>, the path without the debounce; the debounced
  path calls the same \<open>getTopSiteData\<close> later.
\<close>

definition calculateTopSites ::
  "('e, 'h) collaborators \<Rightarrow> state \<Rightarrow> bool \<Rightarrow> cache \<Rightarrow> 'e run" where
  "calculateTopSites ext st clearCache c =
     getTopSiteData ext st (if clearCache then clearTopSiteCacheData c else c)"

section \<open>Notions used to state the properties\<close>

text \<open>
  The hostname a record's location parses to, when the location is a non-empty string that
  parses, and the error thrown when it does not parse.
\<close>

definition parsedHostname :: "(string \<Rightarrow> 'e + 'h) \<Rightarrow> site \<Rightarrow> 'h option" where
  "parsedHostname parse s =
     (case truthyLocation s of None \<Rightarrow> None
      | Some l \<Rightarrow> (case parse l of Inl e \<Rightarrow> None | Inr h \<Rightarrow> Some h))"

definition parseError :: "(string \<Rightarrow> 'e + 'h) \<Rightarrow> site \<Rightarrow> 'e option" where
  "parseError parse s =
     (case truthyLocation s of None \<Rightarrow> None
      | Some l \<Rightarrow> (case parse l of Inl e \<Rightarrow> Some e | Inr h \<Rightarrow> None))"

text \<open>
  The deduplicator as the specification words it: the records, in input order, whose
  location parses to a hostname that no earlier record's location parses to.
\<close>

definition firstOfEachHostname :: "(string \<Rightarrow> 'e + 'h) \<Rightarrow> site list \<Rightarrow> site list" where
  "firstOfEachHostname parse xs =
     map (nth xs)
       (filter (\<lambda>i. parsedHostname parse (xs ! i) \<noteq> None \<and>
                    (\<forall>j \<in> set [0..<i]. parsedHostname parse (xs ! j) \<noteq> parsedHostname parse (xs ! i)))
          [0..<length xs])"

text \<open>The same with a set of hostnames that are already taken.\<close>

definition firstUnseen ::
  "(string \<Rightarrow> 'e + 'h) \<Rightarrow> 'h set \<Rightarrow> site list \<Rightarrow> nat \<Rightarrow> bool" where
  "firstUnseen parse seen xs i \<longleftrightarrow>
     (\<exists>h. parsedHostname parse (xs ! i) = Some h \<and> h \<notin> seen) \<and>
     (\<forall>j<i. parsedHostname parse (xs ! j) \<noteq> parsedHostname parse (xs ! i))"

text \<open>
  The minimum of a previous watermark, if there is one, and a list of observed values;
  unset when there is neither.
\<close>

definition lowestOf :: "int option \<Rightarrow> int list \<Rightarrow> int option" where
  "lowestOf previous vs =
     (if previous = None \<and> vs = [] then None else Some (Min (set_option previous \<union> set vs)))"

text \<open>
  The ranker as the specification words it: a stable sort by descending count, then by
  descending access time, an absent field counting as 0, cut to 100 entries.
\<close>

definition rankKey :: "string \<times> site \<Rightarrow> int \<times> int" where
  "rankKey entry = (- orZero (count (snd entry)), - orZero (lastAccessedTime (snd entry)))"

definition rankerSpec :: "(string \<times> site) list \<Rightarrow> (string \<times> site) list" where
  "rankerSpec candidates = take 100 (sort_key rankKey candidates)"

section \<open>Example inputs\<close>

definition exampleParse :: "string \<Rightarrow> string + string" where
  "exampleParse l =
     (if l = ''https://a.example/1'' \<or> l = ''https://a.example/2'' then Inr ''a.example''
      else if l = ''http://[bad'' then Inl ''Invalid URL''
      else Inr l)"

definition exampleStatic :: "site list" where
  "exampleStatic =
     [\<lparr>key = Some ''s1'', location = Some ''https://s.example/'', count = Some 1,
       lastAccessedTime = Some 1, bookmarked = None\<rparr>]"

definition exampleExt :: "(string, string) collaborators" where
  "exampleExt =
     \<lparr>isSourceAboutUrl = (\<lambda>l. l = Some ''about:newtab''),
      getCacheKey = (\<lambda>st l. if l = Some ''https://b.example/'' then [''bm1''] else []),
      urlParse = exampleParse,
      staticData = exampleStatic\<rparr>"

definition examplePin :: site where
  "examplePin = \<lparr>key = Some ''k5'', location = Some ''https://p.example/'', count = Some 8,
     lastAccessedTime = Some 50, bookmarked = None\<rparr>"

text \<open>
  A history with two records of one hostname (k1, k2), an internal page (k4), a pinned
  key (k5), an ignored key (k6), a location that does not parse (k7) and a record without
  a location that has the highest count (k8).
\<close>

definition exampleHistory :: "(string \<times> site) list" where
  "exampleHistory =
     [(''k1'', \<lparr>key = None, location = Some ''https://a.example/1'', count = Some 3,
               lastAccessedTime = Some 10, bookmarked = None\<rparr>),
      (''k2'', \<lparr>key = None, location = Some ''https://a.example/2'', count = Some 7,
               lastAccessedTime = Some 20, bookmarked = None\<rparr>),
      (''k3'', \<lparr>key = None, location = Some ''https://b.example/'', count = Some 7,
               lastAccessedTime = Some 30, bookmarked = None\<rparr>),
      (''k4'', \<lparr>key = None, location = Some ''about:newtab'', count = Some 9,
               lastAccessedTime = Some 40, bookmarked = None\<rparr>),
      (''k5'', \<lparr>key = None, location = Some ''https://p.example/'', count = Some 8,
               lastAccessedTime = Some 50, bookmarked = None\<rparr>),
      (''k6'', \<lparr>key = None, location = Some ''https://i.example/'', count = Some 8,
               lastAccessedTime = Some 60, bookmarked = None\<rparr>),
      (''k7'', \<lparr>key = None, location = Some ''http://[bad'', count = Some 1,
               lastAccessedTime = Some 5, bookmarked = None\<rparr>),
      (''k8'', \<lparr>key = None, location = None, count = Some 9,
               lastAccessedTime = Some 70, bookmarked = None\<rparr>)]"

definition exampleState :: state where
  "exampleState =
     \<lparr>getSites = exampleHistory,
      getPinnedTopSites = [None, Some examplePin, None, None],
      getIgnoredTopSites = [Some ''k6'']\<rparr>"

definition unsetCache :: cache where
  "unsetCache = \<lparr>minCountOfTopSites = None, minAccessOfTopSites = None\<rparr>"

definition tightCache :: cache where
  "tightCache = \<lparr>minCountOfTopSites = Some 5, minAccessOfTopSites = Some 25\<rparr>"

text \<open>The example history one visit later: a site with a count below the watermark.\<close>

definition laterState :: state where
  "laterState =
     exampleState\<lparr>getSites :=
       (''k9'', \<lparr>key = None, location = Some ''https://n.example/'', count = None,
                lastAccessedTime = Some 90, bookmarked = None\<rparr>) # exampleHistory\<rparr>"

text \<open>Candidates for the grid composer, the second with the key of the example pin.\<close>

definition exampleCandidates :: "site list" where
  "exampleCandidates =
     [\<lparr>key = Some ''k3'', location = Some ''https://b.example/'', count = Some 7,
       lastAccessedTime = Some 30, bookmarked = None\<rparr>,
      \<lparr>key = Some ''k5'', location = Some ''https://p.example/other'', count = Some 2,
       lastAccessedTime = Some 3, bookmarked = None\<rparr>,
      \<lparr>key = Some ''k2'', location = Some ''https://a.example/2'', count = Some 7,
       lastAccessedTime = Some 20, bookmarked = None\<rparr>]"

text \<open>The same site pinned at two slots, and nothing else.\<close>

definition twicePinnedState :: state where
  "twicePinnedState =
     \<lparr>getSites = [],
      getPinnedTopSites = [Some examplePin, Some examplePin],
      getIgnoredTopSites = []\<rparr>"

text \<open>A history whose only record is stored under the key of a static catalog entry.\<close>

definition visitedDefaultState :: state where
  "visitedDefaultState =
     \<lparr>getSites =
        [(''s1'', \<lparr>key = None, location = Some ''https://s.example/'', count = Some 4,
                  lastAccessedTime = Some 8, bookmarked = None\<rparr>)],
      getPinnedTopSites = [None, None],
      getIgnoredTopSites = []\<rparr>"

text \<open>
  A history of one record, whose own \<open>key\<close> field is k1, stored under the given key.
\<close>

definition oneSiteState :: "string \<Rightarrow> state" where
  "oneSiteState k =
     \<lparr>getSites =
        [(k, \<lparr>key = Some ''k1'', location = Some ''https://b.example/'', count = Some 7,
              lastAccessedTime = Some 30, bookmarked = None\<rparr>)],
      getPinnedTopSites = [None],
      getIgnoredTopSites = []\<rparr>"

text \<open>
  Two records with the same count; the first has no access time, the second a positive
  one.
\<close>

definition absentTimeSite :: site where
  "absentTimeSite = \<lparr>key = None, location = Some ''https://c.example/'', count = Some 1,
     lastAccessedTime = None, bookmarked = None\<rparr>"

definition positiveTimeSite :: site where
  "positiveTimeSite = \<lparr>key = None, location = Some ''https://d.example/'', count = Some 1,
     lastAccessedTime = Some 5, bookmarked = None\<rparr>"

definition tieState :: state where
  "tieState =
     \<lparr>getSites = [(''k1'', absentTimeSite), (''k2'', positiveTimeSite)],
      getPinnedTopSites = [None, None],
      getIgnoredTopSites = []\<rparr>"

section \<open>Properties\<close>

subsection \<open>The grid composer\<close>

lemma length_gridSlots: "length (gridSlots pins sites) = length pins"
  by (induction pins arbitrary: sites) (auto split: prod.splits)

lemma dropEmpty_simps:
  "dropEmpty [] = []"
  "dropEmpty (None # slots) = dropEmpty slots"
  "dropEmpty (Some s # slots) = s # dropEmpty slots"
  by (simp_all add: dropEmpty_def List.map_filter_def)

lemma length_dropEmpty: "length (dropEmpty slots) \<le> length slots"
  by (simp add: dropEmpty_def List.map_filter_def)

lemma grid_getTopSiteData:
  "grid (getTopSiteData ext st c) =
     dropEmpty (gridSlots (getPinnedTopSites st)
       (withPreDefined ext st (fst (removeDuplicateDomains (urlParse ext) (rankedSites ext st c)))))"
  by (simp add: getTopSiteData_def Let_def split: prod.splits)

lemma set_dropEmpty: "set (dropEmpty slots) = {s. Some s \<in> set slots}"
proof (induction slots)
  case Nil
  show ?case by (simp add: dropEmpty_simps)
next
  case (Cons slot slots)
  then show ?case by (cases slot) (auto simp: dropEmpty_simps)
qed

lemma gridSlots_append:
  "gridSlots (ps @ qs) sites = gridSlots ps sites @ gridSlots qs (sitesAfter ps sites)"
  by (induction ps arbitrary: sites) (auto split: prod.splits)

lemma sitesAfter_append:
  "sitesAfter (ps @ qs) sites = sitesAfter qs (sitesAfter ps sites)"
  by (induction ps arbitrary: sites) auto

lemma set_fillSlot: "set (snd (fillSlot p sites)) \<subseteq> set sites"
  by (cases "(p, sites)" rule: fillSlot.cases) auto

lemma set_sitesAfter: "set (sitesAfter ps sites) \<subseteq> set sites"
proof (induction ps arbitrary: sites)
  case Nil
  show ?case by simp
next
  case (Cons p ps)
  have "set (sitesAfter ps (snd (fillSlot p sites))) \<subseteq> set (snd (fillSlot p sites))"
    by (rule Cons.IH)
  also have "\<dots> \<subseteq> set sites" by (rule set_fillSlot)
  finally show ?case by simp
qed

lemma sitesAfter_take_Suc:
  assumes "i < length pins"
  shows "sitesAfter (take (Suc i) pins) sites =
         snd (fillSlot (pins ! i) (sitesAfter (take i pins) sites))"
  using assms by (simp add: take_Suc_conv_app_nth sitesAfter_append)

lemma gridSlots_nth:
  assumes "i < length pins"
  shows "gridSlots pins sites ! i = fst (fillSlot (pins ! i) (sitesAfter (take i pins) sites))"
proof -
  have "pins = take i pins @ pins ! i # drop (Suc i) pins"
    using assms by (rule id_take_nth_drop)
  then have "gridSlots pins sites =
      gridSlots (take i pins) sites @
      gridSlots (pins ! i # drop (Suc i) pins) (sitesAfter (take i pins) sites)"
    by (metis gridSlots_append)
  moreover have "length (gridSlots (take i pins) sites) = i"
    using assms by (simp add: length_gridSlots)
  ultimately show ?thesis
    by (simp add: nth_append split: prod.splits)
qed

lemma sitesAfter_later:
  assumes "i \<le> j" "j \<le> length pins"
  shows "set (sitesAfter (take j pins) sites) \<subseteq> set (sitesAfter (take i pins) sites)"
proof -
  have "take j pins = take i pins @ drop i (take j pins)"
    using assms by (metis append_take_drop_id min.absorb3 min.strict_order_iff take_take min_def)
  then have "sitesAfter (take j pins) sites =
      sitesAfter (drop i (take j pins)) (sitesAfter (take i pins) sites)"
    by (metis sitesAfter_append)
  then show ?thesis by (simp add: set_sitesAfter)
qed

lemma set_gridSlots:
  "set (dropEmpty (gridSlots pins sites)) \<subseteq> set (dropEmpty pins) \<union> set sites"
proof (induction pins arbitrary: sites)
  case Nil
  show ?case by (simp add: dropEmpty_simps)
next
  case (Cons p pins)
  show ?case
  proof (cases p)
    case (Some pinned)
    with Cons.IH [of "filter (\<lambda>s. key s \<noteq> key pinned) sites"] show ?thesis
      by (auto simp: dropEmpty_simps)
  next
    case None
    show ?thesis
    proof (cases sites)
      case Nil
      with None Cons.IH [of "[]"] show ?thesis by (auto simp: dropEmpty_simps)
    next
      case (Cons firstSite rest)
      with None Cons.IH [of rest] show ?thesis by (auto simp: dropEmpty_simps)
    qed
  qed
qed

lemma distinct_gridSlots:
  assumes "distinct (map key sites)"
    and "distinct (map key (dropEmpty pins))"
    and "\<forall>s \<in> set sites. \<forall>p \<in> set (dropEmpty pins). key s \<noteq> key p"
  shows "distinct (map key (dropEmpty (gridSlots pins sites)))"
  using assms
proof (induction pins arbitrary: sites)
  case Nil
  show ?case by (simp add: dropEmpty_simps)
next
  case (Cons p pins)
  show ?case
  proof (cases p)
    case (Some pinned)
    let ?rest = "filter (\<lambda>s. key s \<noteq> key pinned) sites"
    have d: "distinct (map key (dropEmpty (gridSlots pins ?rest)))"
      using Cons.prems Some by (intro Cons.IH) (auto simp: dropEmpty_simps distinct_map_filter)
    have "key pinned \<notin> key ` set (dropEmpty (gridSlots pins ?rest))"
    proof
      assume "key pinned \<in> key ` set (dropEmpty (gridSlots pins ?rest))"
      then obtain g where g: "g \<in> set (dropEmpty (gridSlots pins ?rest))" "key g = key pinned"
        by auto
      with set_gridSlots [of pins ?rest] have "g \<in> set (dropEmpty pins) \<or> g \<in> set ?rest"
        by blast
      with g Cons.prems(2) Some show False
        by (auto simp: dropEmpty_simps image_iff)
    qed
    with d Some show ?thesis by (simp add: dropEmpty_simps)
  next
    case None
    show ?thesis
    proof (cases sites)
      case Nil
      with None Cons.prems Cons.IH [of "[]"] show ?thesis by (simp add: dropEmpty_simps)
    next
      case (Cons firstSite rest)
      have d: "distinct (map key (dropEmpty (gridSlots pins rest)))"
        using Cons.prems None Cons by (intro Cons.IH) (auto simp: dropEmpty_simps)
      have "key firstSite \<notin> key ` set (dropEmpty (gridSlots pins rest))"
      proof
        assume "key firstSite \<in> key ` set (dropEmpty (gridSlots pins rest))"
        then obtain g where g: "g \<in> set (dropEmpty (gridSlots pins rest))" "key g = key firstSite"
          by auto
        with set_gridSlots [of pins rest] have "g \<in> set (dropEmpty pins) \<or> g \<in> set rest"
          by blast
        with g Cons.prems(1,3) None Cons show False
          by (auto simp: dropEmpty_simps image_iff)
      qed
      with d None Cons show ?thesis by (simp add: dropEmpty_simps)
    qed
  qed
qed

subsection \<open>Sorting\<close>

lemma set_insortWith: "set (insortWith cmp x ys) = insert x (set ys)"
  by (induction ys) auto

lemma set_sortWith: "set (sortWith cmp xs) = set xs"
  by (induction xs) (simp_all add: sortWith_def set_insortWith)

lemma distinct_map_insortWith:
  "distinct (map f (insortWith cmp x ys)) \<longleftrightarrow> f x \<notin> f ` set ys \<and> distinct (map f ys)"
  by (induction ys) (auto simp: set_insortWith)

lemma distinct_map_sortWith: "distinct (map f (sortWith cmp xs)) \<longleftrightarrow> distinct (map f xs)"
  by (induction xs) (simp_all add: sortWith_def distinct_map_insortWith set_sortWith [unfolded sortWith_def])

lemma insortWith_insort_key:
  assumes "\<forall>y \<in> set ys. (cmp x y \<le> 0) = (f x \<le> f y)"
  shows "insortWith cmp x ys = insort_key f x ys"
  using assms by (induction ys) auto

lemma sortWith_sort_key:
  assumes "\<forall>x \<in> set xs. \<forall>y \<in> set xs. (cmp x y \<le> 0) = (f x \<le> f y)"
  shows "sortWith cmp xs = sort_key f xs"
  using assms
proof (induction xs)
  case Nil
  show ?case by (simp add: sortWith_def)
next
  case (Cons x xs)
  then have ih: "sortWith cmp xs = sort_key f xs" by simp
  have "insortWith cmp x (sort_key f xs) = insort_key f x (sort_key f xs)"
    using Cons.prems by (intro insortWith_insort_key) simp
  with ih show ?case by (simp add: sortWith_def)
qed

lemma sortCountDescending_rankKey:
  assumes "lastAccessedTime (snd a) \<noteq> None" "lastAccessedTime (snd b) \<noteq> None"
  shows "(sortCountDescending (snd a) (snd b) \<le> 0) = (rankKey a \<le> rankKey b)"
  using assms
  by (auto simp: sortCountDescending_def rankKey_def jsLess_def Let_def orZero_def)

subsection \<open>The candidates and their keys\<close>

lemma isPinned_iff:
  "isPinned st k \<longleftrightarrow> (\<exists>p. Some p \<in> set (getPinnedTopSites st) \<and> key p = k)"
  by (auto simp: isPinned_def list_ex_iff split: option.splits)

lemma isPinned_keys: "isPinned st k \<longleftrightarrow> k \<in> key ` set (dropEmpty (getPinnedTopSites st))"
  unfolding isPinned_iff set_dropEmpty by force

lemma key_annotate: "key (annotate ext st (k, s)) = Some k"
  by (simp add: annotate_def)

lemma location_annotate: "location (annotate ext st (k, s)) = location s"
  by (simp add: annotate_def)

lemma keys_rankedSites:
  "map key (rankedSites ext st c) = map (\<lambda>e. Some (fst e)) (sortedSites ext st c)"
  by (simp add: rankedSites_def annotate_def split_def)

lemma set_sortedSites: "set (sortedSites ext st c) \<subseteq> set (filteredSites ext st c)"
  unfolding sortedSites_def
  using set_take_subset [of aboutNewTabMaxEntries
      "sortWith (\<lambda>a b. sortCountDescending (snd a) (snd b)) (filteredSites ext st c)"]
  by (simp add: set_sortWith)

lemma distinct_sortedSites:
  assumes "distinct (map fst (getSites st))"
  shows "distinct (map fst (sortedSites ext st c))"
proof -
  have "distinct (map fst (filteredSites ext st c))"
    using assms by (simp add: filteredSites_def distinct_map_filter)
  then have "distinct (map fst
      (sortWith (\<lambda>a b. sortCountDescending (snd a) (snd b)) (filteredSites ext st c)))"
    by (simp add: distinct_map_sortWith)
  then show ?thesis
    by (simp add: sortedSites_def take_map [symmetric])
qed

lemma distinct_keys_rankedSites:
  assumes "distinct (map fst (getSites st))"
  shows "distinct (map key (rankedSites ext st c))"
proof -
  have "map (\<lambda>e. Some (fst e)) (sortedSites ext st c) = map Some (map fst (sortedSites ext st c))"
    by simp
  then show ?thesis
    using distinct_sortedSites [OF assms, of ext c]
    by (simp only: keys_rankedSites distinct_map inj_on_def) auto
qed

lemma ranked_candidate:
  assumes "s \<in> set (rankedSites ext st c)"
  obtains k r where "(k, r) \<in> set (getSites st)" "isCandidate ext st c (k, r)"
    "s = annotate ext st (k, r)"
proof -
  from assms obtain k r where kr: "(k, r) \<in> set (sortedSites ext st c)" and s: "s = annotate ext st (k, r)"
    by (auto simp: rankedSites_def)
  from kr set_sortedSites have "(k, r) \<in> set (filteredSites ext st c)" by blast
  then have "(k, r) \<in> set (getSites st)" "isCandidate ext st c (k, r)"
    by (simp_all add: filteredSites_def)
  with s that show ?thesis by blast
qed

lemma ranked_not_pinned:
  assumes "s \<in> set (rankedSites ext st c)"
  shows "\<not> isPinned st (key s)"
proof -
  from assms obtain k r where kr: "(k, r) \<in> set (sortedSites ext st c)" and s: "s = annotate ext st (k, r)"
    by (auto simp: rankedSites_def)
  from kr set_sortedSites have "(k, r) \<in> set (filteredSites ext st c)" by blast
  then have "\<not> isPinned st (Some k)"
    by (simp add: filteredSites_def isCandidate_def)
  with s show ?thesis by (simp add: key_annotate)
qed

lemma keys_preDefined:
  "map key (preDefined ext st) =
     filter (\<lambda>k. \<not> isPinned st k \<and> \<not> isIgnored st k) (map key (staticData ext))"
  by (simp add: preDefined_def filter_map comp_def)

lemma keys_rankedSites_history:
  "key ` set (rankedSites ext st c) \<subseteq> (\<lambda>e. Some (fst e)) ` set (getSites st)"
proof -
  have "set (map key (rankedSites ext st c)) = (\<lambda>e. Some (fst e)) ` set (sortedSites ext st c)"
    by (simp only: keys_rankedSites set_map)
  moreover have "set (sortedSites ext st c) \<subseteq> set (getSites st)"
    using set_sortedSites [of ext st c] by (auto simp: filteredSites_def)
  ultimately show ?thesis by auto
qed

lemma ranker_order_when_times_present:
  assumes "\<forall>e \<in> set (filteredSites ext st c). lastAccessedTime (snd e) \<noteq> None"
  shows "sortedSites ext st c = rankerSpec (filteredSites ext st c)"
proof -
  have "sortWith (\<lambda>a b. sortCountDescending (snd a) (snd b)) (filteredSites ext st c) =
      sort_key rankKey (filteredSites ext st c)"
    using assms by (intro sortWith_sort_key) (simp add: sortCountDescending_rankKey)
  then show ?thesis
    by (simp add: sortedSites_def rankerSpec_def aboutNewTabMaxEntries_def)
qed

subsection \<open>The watermarks\<close>

lemma lowestOf_Nil: "lowestOf previous [] = previous"
  by (cases previous) (simp_all add: lowestOf_def)

lemma Min_insert_twice:
  assumes "finite S"
  shows "Min (insert m (insert v S)) = Min (insert (min v m) S)"
proof (cases "S = {}")
  case True
  then show ?thesis by (simp add: min.commute)
next
  case False
  have 1: "Min (insert m (insert v S)) = min m (Min (insert v S))"
    using assms by (intro Min_insert) simp_all
  have 2: "Min (insert v S) = min v (Min S)"
    using assms False by (intro Min_insert)
  have 3: "Min (insert (min v m) S) = min (min v m) (Min S)"
    using assms False by (intro Min_insert)
  show ?thesis unfolding 1 2 3
    by (simp only: min.assoc min.commute min.left_commute)
qed

lemma lowestOf_Cons:
  "lowestOf previous (v # vs) =
     lowestOf (case previous of None \<Rightarrow> Some v | Some m \<Rightarrow> if v < m then Some v else Some m) vs"
proof (cases previous)
  case None
  then show ?thesis by (simp add: lowestOf_def)
next
  case (Some m)
  have "lowestOf (Some m) (v # vs) = Some (Min (insert m (insert v (set vs))))"
    by (simp only: lowestOf_def option.set list.set Un_insert_left Un_empty_left
          option.distinct list.distinct simp_thms if_False)
  also have "\<dots> = Some (Min (insert (min v m) (set vs)))"
    by (simp only: Min_insert_twice [OF finite_set])
  also have "\<dots> = lowestOf (Some (min v m)) vs"
    by (simp only: lowestOf_def option.set Un_insert_left Un_empty_left
          option.distinct simp_thms if_False)
  also have "Some (min v m) = (if v < m then Some v else Some m)"
    by (simp add: min_def)
  finally show ?thesis using Some by simp
qed

lemma minCount_updateWatermarks:
  "minCountOfTopSites (updateWatermarks xs c) =
     lowestOf (minCountOfTopSites c) (map (\<lambda>s. orZero (count s)) xs)"
proof (induction xs arbitrary: c)
  case Nil
  show ?case by (simp add: lowestOf_Nil)
next
  case (Cons s rest)
  show ?case
    by (simp add: Cons.IH lowestOf_Cons Let_def split: option.splits)
qed

lemma minAccess_updateWatermarks:
  "minAccessOfTopSites (updateWatermarks xs c) =
     lowestOf (minAccessOfTopSites c) (map (\<lambda>s. orZero (lastAccessedTime s)) xs)"
proof (induction xs arbitrary: c)
  case Nil
  show ?case by (simp add: lowestOf_Nil)
next
  case (Cons s rest)
  show ?case
    by (simp add: Cons.IH lowestOf_Cons Let_def split: option.splits)
qed

lemma lowestOf_bounded:
  assumes "\<forall>v \<in> set vs. m \<le> v"
  shows "lowestOf (Some m) vs = Some m"
proof -
  have "Min (insert m (set vs)) = m"
    using assms by (intro Min_eqI) auto
  then show ?thesis by (simp add: lowestOf_def)
qed

lemma cacheAfter_getTopSiteData:
  "cacheAfter (getTopSiteData ext st c) = updateWatermarks (rankedSites ext st c) c"
  by (simp add: getTopSiteData_def Let_def split: prod.splits)

lemma watermark_kept:
  "minCountOfTopSites c = Some m \<Longrightarrow>
     minCountOfTopSites (cacheAfter (getTopSiteData ext st c)) = Some m"
  "minAccessOfTopSites c = Some a \<Longrightarrow>
     minAccessOfTopSites (cacheAfter (getTopSiteData ext st c)) = Some a"
proof -
  assume m: "minCountOfTopSites c = Some m"
  have "\<forall>v \<in> set (map (\<lambda>s. orZero (count s)) (rankedSites ext st c)). m \<le> v"
  proof
    fix v assume "v \<in> set (map (\<lambda>s. orZero (count s)) (rankedSites ext st c))"
    then obtain s where s: "s \<in> set (rankedSites ext st c)" and v: "v = orZero (count s)"
      by auto
    from s obtain k r where "isCandidate ext st c (k, r)" "s = annotate ext st (k, r)"
      by (rule ranked_candidate)
    with m v show "m \<le> v" by (simp add: isCandidate_def annotate_def)
  qed
  then show "minCountOfTopSites (cacheAfter (getTopSiteData ext st c)) = Some m"
    by (simp only: cacheAfter_getTopSiteData minCount_updateWatermarks m lowestOf_bounded)
next
  assume a: "minAccessOfTopSites c = Some a"
  have "\<forall>v \<in> set (map (\<lambda>s. orZero (lastAccessedTime s)) (rankedSites ext st c)). a \<le> v"
  proof
    fix v assume "v \<in> set (map (\<lambda>s. orZero (lastAccessedTime s)) (rankedSites ext st c))"
    then obtain s where s: "s \<in> set (rankedSites ext st c)" and v: "v = orZero (lastAccessedTime s)"
      by auto
    from s obtain k r where "isCandidate ext st c (k, r)" "s = annotate ext st (k, r)"
      by (rule ranked_candidate)
    with a v show "a \<le> v" by (simp add: isCandidate_def annotate_def)
  qed
  then show "minAccessOfTopSites (cacheAfter (getTopSiteData ext st c)) = Some a"
    by (simp only: cacheAfter_getTopSiteData minAccess_updateWatermarks a lowestOf_bounded)
qed

subsection \<open>The deduplicator\<close>

lemma kept_Cons:
  "fst (removeDuplicateDomainsFrom parse seen (s # rest)) =
     (case truthyLocation s of
        None \<Rightarrow> fst (removeDuplicateDomainsFrom parse seen rest)
      | Some l \<Rightarrow>
          (case parse l of
             Inl e \<Rightarrow> fst (removeDuplicateDomainsFrom parse seen rest)
           | Inr h \<Rightarrow>
               if h \<notin> seen then s # fst (removeDuplicateDomainsFrom parse (insert h seen) rest)
               else fst (removeDuplicateDomainsFrom parse seen rest)))"
  by (simp split: option.splits sum.splits prod.splits)

lemma logged_Cons:
  "snd (removeDuplicateDomainsFrom parse seen (s # rest)) =
     (case truthyLocation s of
        None \<Rightarrow> snd (removeDuplicateDomainsFrom parse seen rest)
      | Some l \<Rightarrow>
          (case parse l of
             Inl e \<Rightarrow> e # snd (removeDuplicateDomainsFrom parse seen rest)
           | Inr h \<Rightarrow>
               if h \<notin> seen then snd (removeDuplicateDomainsFrom parse (insert h seen) rest)
               else snd (removeDuplicateDomainsFrom parse seen rest)))"
  by (simp split: option.splits sum.splits prod.splits)

lemma set_removeDuplicateDomainsFrom:
  "set (fst (removeDuplicateDomainsFrom parse seen xs)) \<subseteq> set xs"
proof (induction xs arbitrary: seen)
  case Nil
  show ?case by simp
next
  case (Cons s rest)
  have "set (fst (removeDuplicateDomainsFrom parse seen' rest)) \<subseteq> set rest" for seen'
    by (rule Cons.IH)
  then show ?case
    by (auto simp: kept_Cons simp del: removeDuplicateDomainsFrom.simps
          split: option.splits sum.splits if_splits)
qed

lemma distinct_removeDuplicateDomainsFrom:
  "distinct (map f xs) \<Longrightarrow> distinct (map f (fst (removeDuplicateDomainsFrom parse seen xs)))"
proof (induction xs arbitrary: seen)
  case Nil
  show ?case by simp
next
  case (Cons s rest)
  have sub: "f ` set (fst (removeDuplicateDomainsFrom parse seen' rest)) \<subseteq> f ` set rest" for seen'
    using set_removeDuplicateDomainsFrom [of parse seen' rest] by blast
  from Cons.prems have fresh: "f s \<notin> f ` set rest" and "distinct (map f rest)" by simp_all
  then have ih: "distinct (map f (fst (removeDuplicateDomainsFrom parse seen' rest)))" for seen'
    using Cons.IH by simp
  show ?case
    using ih sub fresh
    by (auto simp: kept_Cons simp del: removeDuplicateDomainsFrom.simps
          split: option.splits sum.splits if_splits)
qed

lemma kept_Cons_hostname:
  "fst (removeDuplicateDomainsFrom parse seen (s # rest)) =
     (case parsedHostname parse s of
        None \<Rightarrow> fst (removeDuplicateDomainsFrom parse seen rest)
      | Some h \<Rightarrow>
          if h \<notin> seen then s # fst (removeDuplicateDomainsFrom parse (insert h seen) rest)
          else fst (removeDuplicateDomainsFrom parse seen rest))"
  by (simp add: kept_Cons parsedHostname_def del: removeDuplicateDomainsFrom.simps
        split: option.splits sum.splits)

lemma upt_0_Suc: "[0..<Suc n] = 0 # map Suc [0..<n]"
  by (simp add: upt_conv_Cons map_Suc_upt del: upt_Suc)

lemma indices_Cons:
  "map (nth (s # rest)) (filter P [0..<length (s # rest)]) =
     (if P 0 then [s] else []) @ map (nth rest) (filter (\<lambda>i. P (Suc i)) [0..<length rest])"
proof -
  have "filter P [0..<length (s # rest)] =
      (if P 0 then [0] else []) @ map Suc (filter (\<lambda>i. P (Suc i)) [0..<length rest])"
    by (simp add: upt_0_Suc filter_map comp_def del: upt_Suc)
  then show ?thesis by (simp add: comp_def)
qed

lemma firstUnseen_Suc:
  "firstUnseen parse seen (s # rest) (Suc i) \<longleftrightarrow>
     firstUnseen parse
       (case parsedHostname parse s of None \<Rightarrow> seen | Some h \<Rightarrow> insert h seen) rest i"
  by (cases "parsedHostname parse s") (auto simp: firstUnseen_def All_less_Suc2)

lemma firstUnseen_0:
  "firstUnseen parse seen (s # rest) 0 \<longleftrightarrow>
     (\<exists>h. parsedHostname parse s = Some h \<and> h \<notin> seen)"
  by (simp add: firstUnseen_def)

lemma kept_indices:
  "fst (removeDuplicateDomainsFrom parse seen xs) =
     map (nth xs) (filter (firstUnseen parse seen xs) [0..<length xs])"
proof (induction xs arbitrary: seen)
  case Nil
  show ?case by simp
next
  case (Cons s rest)
  show ?case
  proof (cases "parsedHostname parse s")
    case None
    then show ?thesis
      by (simp only: kept_Cons_hostname indices_Cons Cons.IH firstUnseen_Suc firstUnseen_0) simp
  next
    case (Some h0)
    show ?thesis
    proof (cases "h0 \<in> seen")
      case True
      then have "insert h0 seen = seen" by auto
      with Some True show ?thesis
        by (simp only: kept_Cons_hostname indices_Cons Cons.IH firstUnseen_Suc firstUnseen_0) simp
    next
      case False
      with Some show ?thesis
        by (simp only: kept_Cons_hostname indices_Cons Cons.IH firstUnseen_Suc firstUnseen_0) simp
    qed
  qed
qed

lemma logged_errors:
  "snd (removeDuplicateDomainsFrom parse seen xs) = List.map_filter (parseError parse) xs"
proof (induction xs arbitrary: seen)
  case Nil
  show ?case by simp
next
  case (Cons s rest)
  then show ?case
    by (simp add: logged_Cons parseError_def
          del: removeDuplicateDomainsFrom.simps split: option.splits sum.splits)
qed

lemma kept_have_location:
  "\<forall>s \<in> set (fst (removeDuplicateDomainsFrom parse seen xs)). truthyLocation s \<noteq> None"
proof (induction xs arbitrary: seen)
  case Nil
  show ?case by simp
next
  case (Cons s rest)
  then show ?case
    by (auto simp: kept_Cons simp del: removeDuplicateDomainsFrom.simps
          split: option.splits sum.splits)
qed

lemma without_location_skipped:
  "removeDuplicateDomainsFrom parse seen xs =
     removeDuplicateDomainsFrom parse seen (filter (\<lambda>s. truthyLocation s \<noteq> None) xs)"
  by (induction xs arbitrary: seen) (auto split: option.splits sum.splits)


section \<open>The properties of the specification\<close>

subsection \<open>Grid composer\<close>

text \<open>
  C1. Pin priority. For every sequence of pinned entries, every candidate list and every
  slot \<open>i\<close>: when the entry at \<open>i\<close> is a pin, the composed grid (before empty slots are
  dropped) holds exactly that pin at \<open>i\<close>, the candidates with the pin's key are removed
  from the working list at that step, and no candidate with that key is in the working
  list when any later slot is filled. When the entry at \<open>i\<close> is null, the slot receives
  the first remaining candidate, which leaves the working list, or stays empty when the
  working list is exhausted.
\<close>

theorem pin_priority:
  assumes "i < length pins"
  shows "case pins ! i of
           Some pinned \<Rightarrow>
             gridSlots pins sites ! i = Some pinned \<and>
             sitesAfter (take (Suc i) pins) sites =
               filter (\<lambda>s. key s \<noteq> key pinned) (sitesAfter (take i pins) sites) \<and>
             (\<forall>j. i < j \<and> j \<le> length pins \<longrightarrow>
                (\<forall>s \<in> set (sitesAfter (take j pins) sites). key s \<noteq> key pinned))
         | None \<Rightarrow>
             (case sitesAfter (take i pins) sites of
                [] \<Rightarrow> gridSlots pins sites ! i = None \<and>
                      sitesAfter (take (Suc i) pins) sites = []
              | firstSite # rest \<Rightarrow>
                  gridSlots pins sites ! i = Some firstSite \<and>
                  sitesAfter (take (Suc i) pins) sites = rest)"
proof (cases "pins ! i")
  case None
  then show ?thesis
    using assms by (simp add: gridSlots_nth sitesAfter_take_Suc split: list.splits)
next
  case (Some pinned)
  have step: "sitesAfter (take (Suc i) pins) sites =
      filter (\<lambda>s. key s \<noteq> key pinned) (sitesAfter (take i pins) sites)"
    using assms Some by (simp add: sitesAfter_take_Suc)
  have later: "key s \<noteq> key pinned"
    if "i < j" "j \<le> length pins" "s \<in> set (sitesAfter (take j pins) sites)" for j s
  proof -
    have "set (sitesAfter (take j pins) sites) \<subseteq> set (sitesAfter (take (Suc i) pins) sites)"
      using that by (intro sitesAfter_later) simp_all
    with that step show ?thesis by auto
  qed
  have slot: "gridSlots pins sites ! i = Some pinned"
    using assms Some by (simp add: gridSlots_nth)
  have "\<forall>j. i < j \<and> j \<le> length pins \<longrightarrow>
          (\<forall>s \<in> set (sitesAfter (take j pins) sites). key s \<noteq> key pinned)"
    using later by blast
  with Some slot step show ?thesis by simp
qed


theorem pin_priority_witness:
  "1 < length (getPinnedTopSites exampleState) \<and>
   gridSlots (getPinnedTopSites exampleState) exampleCandidates ! 1 = Some examplePin \<and>
   sitesAfter (take 1 (getPinnedTopSites exampleState)) exampleCandidates = tl exampleCandidates \<and>
   sitesAfter (take (Suc 1) (getPinnedTopSites exampleState)) exampleCandidates =
     [exampleCandidates ! 2]"
proof -
  have h: "1 < length (getPinnedTopSites exampleState)"
    by (simp add: exampleState_def)
  have pin: "getPinnedTopSites exampleState ! 1 = Some examplePin"
    by (simp add: exampleState_def)
  have before: "sitesAfter (take 1 (getPinnedTopSites exampleState)) exampleCandidates =
      tl exampleCandidates"
    by (simp add: exampleState_def exampleCandidates_def)
  have "filter (\<lambda>s. key s \<noteq> key examplePin) (tl exampleCandidates) = [exampleCandidates ! 2]"
    by (simp add: exampleCandidates_def examplePin_def)
  with pin_priority [OF h, of exampleCandidates] h pin before show ?thesis
    by simp
qed

text \<open>
  C9. The emitted grid is never longer than the sequence of pinned entries; when that
  sequence is empty the grid is empty, whatever the history and the static catalog hold.
\<close>

theorem grid_length_bounded_by_pins:
  "length (grid (getTopSiteData ext st c)) \<le> length (getPinnedTopSites st) \<and>
   (getPinnedTopSites st = [] \<longrightarrow> grid (getTopSiteData ext st c) = [])"
proof -
  have "length (grid (getTopSiteData ext st c)) \<le> length (getPinnedTopSites st)"
    unfolding grid_getTopSiteData
    using length_dropEmpty [of "gridSlots (getPinnedTopSites st) sites" for sites]
    by (simp add: length_gridSlots)
  then show ?thesis by auto
qed


theorem grid_length_bounded_by_pins_witness:
  "getPinnedTopSites (exampleState\<lparr>getPinnedTopSites := []\<rparr>) = [] \<and>
   grid (getTopSiteData exampleExt (exampleState\<lparr>getPinnedTopSites := []\<rparr>) unsetCache) = []"
  using grid_length_bounded_by_pins
    [of exampleExt "exampleState\<lparr>getPinnedTopSites := []\<rparr>" unsetCache]
  by simp

text \<open>
  C3. No duplicate keys, as the code has it. The emitted grid has no two entries with the
  same key provided the pinned entries have pairwise different keys, the static catalog
  entries have pairwise different keys, and no static catalog entry has the key of a
  history record. (The history is a map, so its keys are pairwise different.)
\<close>

theorem no_duplicate_keys:
  assumes hist: "distinct (map fst (getSites st))"
    and pins: "distinct (map key (dropEmpty (getPinnedTopSites st)))"
    and static: "distinct (map key (staticData ext))"
    and apart: "\<forall>s \<in> set (staticData ext). key s \<notin> (\<lambda>e. Some (fst e)) ` set (getSites st)"
  shows "distinct (map key (grid (getTopSiteData ext st c)))"
proof -
  let ?ranked = "rankedSites ext st c"
  let ?kept = "fst (removeDuplicateDomains (urlParse ext) ?ranked)"
  let ?sites = "withPreDefined ext st ?kept"
  have kept_sub: "set ?kept \<subseteq> set ?ranked"
    unfolding removeDuplicateDomains_def by (rule set_removeDuplicateDomainsFrom)
  have kept_distinct: "distinct (map key ?kept)"
    unfolding removeDuplicateDomains_def
    by (intro distinct_removeDuplicateDomainsFrom distinct_keys_rankedSites hist)
  have pre_distinct: "distinct (map key (preDefined ext st))"
    using static by (simp add: keys_preDefined)
  have pre_sub: "set (preDefined ext st) \<subseteq>
      (\<lambda>s. s\<lparr>bookmarked := firstOrFalse (getCacheKey ext st (location s))\<rparr>) ` set (staticData ext)"
    by (auto simp: preDefined_def)
  have disjoint: "key a \<noteq> key b" if a: "a \<in> set ?kept" and b: "b \<in> set (preDefined ext st)" for a b
  proof -
    from a kept_sub have "key a \<in> key ` set ?ranked" by blast
    with keys_rankedSites_history [of ext st c]
    have ka: "key a \<in> (\<lambda>e. Some (fst e)) ` set (getSites st)" by blast
    from b pre_sub obtain s where "s \<in> set (staticData ext)" and "key b = key s"
      by auto
    with apart have "key b \<notin> (\<lambda>e. Some (fst e)) ` set (getSites st)" by simp
    with ka show ?thesis by metis
  qed
  have "set (map key ?kept) \<inter> set (map key (preDefined ext st)) = {}"
    using disjoint by auto
  with kept_distinct pre_distinct have sites_distinct: "distinct (map key ?sites)"
    by (simp add: withPreDefined_def)
  have unpinned: "\<not> isPinned st (key s)" if "s \<in> set ?sites" for s
  proof -
    from that have "s \<in> set ?kept \<or> s \<in> set (preDefined ext st)"
      by (auto simp: withPreDefined_def split: if_splits)
    then show ?thesis
    proof
      assume "s \<in> set ?kept"
      with kept_sub have "s \<in> set ?ranked" by blast
      then show ?thesis by (rule ranked_not_pinned)
    next
      assume "s \<in> set (preDefined ext st)"
      then have "key s \<in> set (map key (preDefined ext st))" by simp
      then show ?thesis by (simp only: keys_preDefined set_filter) simp
    qed
  qed
  have "\<forall>s \<in> set ?sites. \<forall>p \<in> set (dropEmpty (getPinnedTopSites st)). key s \<noteq> key p"
    using unpinned unfolding isPinned_iff set_dropEmpty by fastforce
  with sites_distinct pins
  have "distinct (map key (dropEmpty (gridSlots (getPinnedTopSites st) ?sites)))"
    by (intro distinct_gridSlots)
  then show ?thesis by (simp only: grid_getTopSiteData)
qed


theorem no_duplicate_keys_witness:
  "distinct (map fst (getSites exampleState)) \<and>
   distinct (map key (dropEmpty (getPinnedTopSites exampleState))) \<and>
   distinct (map key (staticData exampleExt)) \<and>
   key ` set (staticData exampleExt) \<inter> (\<lambda>e. Some (fst e)) ` set (getSites exampleState) = {} \<and>
   distinct (map key (grid (getTopSiteData exampleExt exampleState unsetCache)))"
proof -
  have h1: "distinct (map fst (getSites exampleState))"
    by (simp add: exampleState_def exampleHistory_def)
  have h2: "distinct (map key (dropEmpty (getPinnedTopSites exampleState)))"
    by (simp add: exampleState_def dropEmpty_simps)
  have h3: "distinct (map key (staticData exampleExt))"
    by (simp add: exampleExt_def exampleStatic_def)
  have h4: "\<forall>s \<in> set (staticData exampleExt).
      key s \<notin> (\<lambda>e. Some (fst e)) ` set (getSites exampleState)"
    by (simp add: exampleExt_def exampleStatic_def exampleState_def exampleHistory_def)
  have h5: "key ` set (staticData exampleExt) \<inter>
      (\<lambda>e. Some (fst e)) ` set (getSites exampleState) = {}"
    by (simp add: exampleExt_def exampleStatic_def exampleState_def exampleHistory_def)
  from no_duplicate_keys [OF h1 h2 h3 h4, of unsetCache] h1 h2 h3 h5 show ?thesis
    by blast
qed

text \<open>
  As the specification states it, for every sequence of pinned entries, the property
  fails: a site pinned at two slots is emitted twice.
\<close>

theorem duplicate_pins_counterexample:
  "\<not> distinct (map key (grid (getTopSiteData exampleExt twicePinnedState unsetCache)))"
  by code_simp

text \<open>
  It also fails without any pin, when a history record is stored under the key of a
  static catalog entry and the catalog is appended.
\<close>

lemma static_catalog_key_clash:
  "map key (grid (getTopSiteData exampleExt visitedDefaultState unsetCache)) =
     [Some ''s1'', Some ''s1'']"
  by code_simp

subsection \<open>Candidate filter\<close>

text \<open>
  C4. Candidate filter membership. The filter retains, in the order of the history map,
  exactly the records for which all of these hold: the location is not an internal
  (source-about) URL; the key is not the key of a pinned entry; the key is not in the
  ignored list; the count (0 if absent) is at least \<open>minCountOfTopSites\<close> when that is set;
  the access time (0 if absent) is at least \<open>minAccessOfTopSites\<close> when that is set. The
  filter is a function of the state and the cache that returns the retained records and
  nothing else.
\<close>

theorem candidate_filter_membership:
  "filteredSites ext st c =
     filter (\<lambda>(k, s).
         \<not> isSourceAboutUrl ext (location s) \<and>
         Some k \<notin> key ` set (dropEmpty (getPinnedTopSites st)) \<and>
         Some k \<notin> set (getIgnoredTopSites st) \<and>
         (\<forall>m. minCountOfTopSites c = Some m \<longrightarrow> m \<le> orZero (count s)) \<and>
         (\<forall>m. minAccessOfTopSites c = Some m \<longrightarrow> m \<le> orZero (lastAccessedTime s)))
       (getSites st)"
  unfolding filteredSites_def
  by (rule filter_cong [OF refl])
     (auto simp: isCandidate_def isPinned_keys isIgnored_def split: option.splits)


theorem candidate_filter_membership_witness:
  "minCountOfTopSites tightCache = Some 5 \<and> minAccessOfTopSites tightCache = Some 25 \<and>
   map fst (filteredSites exampleExt exampleState tightCache) = [''k3'', ''k8'']"
  unfolding candidate_filter_membership
  by (simp add: tightCache_def exampleState_def exampleHistory_def exampleExt_def
        examplePin_def dropEmpty_simps orZero_def)

subsection \<open>Ranker\<close>

text \<open>
  C5. Ranker order and truncation. The ranked list is to be the candidates in a stable
  order of descending count, then descending access time (absent counting as 0), cut to
  100 entries. On two candidates with equal counts, the first without an access time and
  the second with a positive one, the code keeps the input order where that order puts
  the second candidate first.
\<close>

theorem ranker_order_absent_time:
  "map fst (sortedSites exampleExt tieState unsetCache) = [''k1'', ''k2''] \<and>
   map fst (rankerSpec (filteredSites exampleExt tieState unsetCache)) = [''k2'', ''k1'']"
  by code_simp

text \<open>
  C6. Missing optional fields are to be treated as zero. The comparator of the ranker does
  so for the count, but compares an absent access time with \<open><\<close> and \<open>>\<close> as it is: for two
  records with equal counts, one without an access time and one with a positive access
  time, it returns 0 in both directions, so the record with the positive time is not
  ordered first.
\<close>

theorem tie_break_absent_time:
  "sortCountDescending absentTimeSite positiveTimeSite = 0 \<and>
   sortCountDescending positiveTimeSite absentTimeSite = 0 \<and>
   map key (rankedSites exampleExt tieState unsetCache) = [Some ''k1'', Some ''k2'']"
  by code_simp

text \<open>
  C8. The key attached in the ranking pass, as the code has it: every retained record is
  an entry of the history map that passed the candidate filter, and the key attached to
  it is the key under which the history map holds it (the key the filter tested against
  the pinned entries and the ignored list), whatever its position in the ranking.
\<close>

theorem ranked_key_is_history_key:
  "\<forall>i < length (rankedSites ext st c).
     \<exists>k s. sortedSites ext st c ! i = (k, s) \<and>
           (k, s) \<in> set (getSites st) \<and>
           isCandidate ext st c (k, s) \<and>
           rankedSites ext st c ! i =
             s\<lparr>bookmarked := firstOrFalse (getCacheKey ext st (location s)), key := Some k\<rparr>"
proof (intro allI impI)
  fix i assume i: "i < length (rankedSites ext st c)"
  then have len: "i < length (sortedSites ext st c)" by (simp add: rankedSites_def)
  obtain k s where ks: "sortedSites ext st c ! i = (k, s)" by (cases "sortedSites ext st c ! i")
  from len have "sortedSites ext st c ! i \<in> set (sortedSites ext st c)" by simp
  with ks set_sortedSites have "(k, s) \<in> set (filteredSites ext st c)" by fastforce
  then have "(k, s) \<in> set (getSites st)" "isCandidate ext st c (k, s)"
    by (simp_all add: filteredSites_def)
  moreover have "rankedSites ext st c ! i =
      s\<lparr>bookmarked := firstOrFalse (getCacheKey ext st (location s)), key := Some k\<rparr>"
    using len ks by (simp add: rankedSites_def annotate_def)
  ultimately show "\<exists>k s. sortedSites ext st c ! i = (k, s) \<and>
           (k, s) \<in> set (getSites st) \<and>
           isCandidate ext st c (k, s) \<and>
           rankedSites ext st c ! i =
             s\<lparr>bookmarked := firstOrFalse (getCacheKey ext st (location s)), key := Some k\<rparr>"
    using ks by blast
qed


theorem ranked_key_is_history_key_witness:
  "0 < length (rankedSites exampleExt exampleState unsetCache) \<and>
   key (rankedSites exampleExt exampleState unsetCache ! 0) = Some ''k8''"
proof -
  have h: "0 < length (rankedSites exampleExt exampleState unsetCache)"
    by code_simp
  have top: "fst (sortedSites exampleExt exampleState unsetCache ! 0) = ''k8''"
    by code_simp
  from ranked_key_is_history_key [of exampleExt exampleState unsetCache] h
  obtain k s where "sortedSites exampleExt exampleState unsetCache ! 0 = (k, s)"
    and "rankedSites exampleExt exampleState unsetCache ! 0 =
      s\<lparr>bookmarked := firstOrFalse (getCacheKey exampleExt exampleState (location s)),
        key := Some k\<rparr>"
    by blast
  with top h show ?thesis by simp
qed

text \<open>
  As the specification states it, a key derived from the position and distinct from the
  record's identity key, the property fails: the record at position 0 gets the key the
  history map holds it under, which here is also the record's own \<open>key\<close> field, and the
  same record in the same position gets another key when the history map holds it under
  another key.
\<close>

theorem ranked_key_counterexample:
  "key (rankedSites exampleExt (oneSiteState ''k1'') unsetCache ! 0) =
     Some (fst (getSites (oneSiteState ''k1'') ! 0)) \<and>
   key (rankedSites exampleExt (oneSiteState ''k1'') unsetCache ! 0) =
     key (snd (getSites (oneSiteState ''k1'') ! 0)) \<and>
   key (rankedSites exampleExt (oneSiteState ''k9'') unsetCache ! 0) = Some ''k9''"
  by code_simp

subsection \<open>Threshold cache\<close>

text \<open>
  C2. Monotone watermark. For two consecutive runs with no clear in between, a watermark
  that is set before the second run is set after it and is not lower. After every run
  each watermark is the minimum of its previous value, when it had one, and the counts
  (the access times), 0 if absent, of the retained, truncated pool; it stays unset only
  when it was unset and the pool is empty.
\<close>

theorem monotone_watermark:
  "(\<forall>m. minCountOfTopSites (cacheAfter (getTopSiteData ext1 st1 c0)) = Some m \<longrightarrow>
      (\<exists>m'. minCountOfTopSites
               (cacheAfter (getTopSiteData ext2 st2 (cacheAfter (getTopSiteData ext1 st1 c0)))) = Some m' \<and>
            m \<le> m')) \<and>
   (\<forall>a. minAccessOfTopSites (cacheAfter (getTopSiteData ext1 st1 c0)) = Some a \<longrightarrow>
      (\<exists>a'. minAccessOfTopSites
               (cacheAfter (getTopSiteData ext2 st2 (cacheAfter (getTopSiteData ext1 st1 c0)))) = Some a' \<and>
            a \<le> a')) \<and>
   minCountOfTopSites (cacheAfter (getTopSiteData ext st c)) =
     lowestOf (minCountOfTopSites c) (map (\<lambda>s. orZero (count s)) (rankedSites ext st c)) \<and>
   minAccessOfTopSites (cacheAfter (getTopSiteData ext st c)) =
     lowestOf (minAccessOfTopSites c) (map (\<lambda>s. orZero (lastAccessedTime s)) (rankedSites ext st c))"
proof -
  have "\<exists>m'. minCountOfTopSites (cacheAfter (getTopSiteData ext2 st2 c1)) = Some m' \<and> m \<le> m'"
    if "minCountOfTopSites c1 = Some m" for c1 m
    using that by (simp add: watermark_kept)
  moreover
  have "\<exists>a'. minAccessOfTopSites (cacheAfter (getTopSiteData ext2 st2 c1)) = Some a' \<and> a \<le> a'"
    if "minAccessOfTopSites c1 = Some a" for c1 a
    using that by (simp add: watermark_kept)
  moreover
  have "minCountOfTopSites (cacheAfter (getTopSiteData ext st c)) =
     lowestOf (minCountOfTopSites c) (map (\<lambda>s. orZero (count s)) (rankedSites ext st c))"
    by (simp only: cacheAfter_getTopSiteData minCount_updateWatermarks)
  moreover
  have "minAccessOfTopSites (cacheAfter (getTopSiteData ext st c)) =
     lowestOf (minAccessOfTopSites c) (map (\<lambda>s. orZero (lastAccessedTime s)) (rankedSites ext st c))"
    by (simp only: cacheAfter_getTopSiteData minAccess_updateWatermarks)
  ultimately show ?thesis by blast
qed


theorem monotone_watermark_witness:
  "minCountOfTopSites (cacheAfter (getTopSiteData exampleExt exampleState unsetCache)) = Some 1 \<and>
   minAccessOfTopSites (cacheAfter (getTopSiteData exampleExt exampleState unsetCache)) = Some 5 \<and>
   (\<exists>m'. minCountOfTopSites
            (cacheAfter (getTopSiteData exampleExt laterState
               (cacheAfter (getTopSiteData exampleExt exampleState unsetCache)))) = Some m' \<and>
         1 \<le> m') \<and>
   (\<exists>a'. minAccessOfTopSites
            (cacheAfter (getTopSiteData exampleExt laterState
               (cacheAfter (getTopSiteData exampleExt exampleState unsetCache)))) = Some a' \<and>
         5 \<le> a')"
proof -
  have h1: "minCountOfTopSites (cacheAfter (getTopSiteData exampleExt exampleState unsetCache)) =
      Some 1"
    by code_simp
  have h2: "minAccessOfTopSites (cacheAfter (getTopSiteData exampleExt exampleState unsetCache)) =
      Some 5"
    by code_simp
  from monotone_watermark
    [of exampleExt exampleState unsetCache exampleExt laterState exampleExt exampleState unsetCache]
    h1 h2
  show ?thesis by blast
qed

subsection \<open>Domain deduplicator\<close>

text \<open>
  C7. Domain deduplication with recoverable parse errors. On any input list,
  \<open>removeDuplicateDomains\<close> returns, in input order, exactly the records whose location
  parses to a hostname that no earlier record's location parses to; it logs the error of
  every location that fails to parse, in input order, drops that record and goes on. The
  result has no error case: the function returns a list for every input.
\<close>

theorem removeDuplicateDomains_first_of_each_hostname:
  "removeDuplicateDomains parse xs =
     (firstOfEachHostname parse xs, List.map_filter (parseError parse) xs)"
proof -
  have "firstUnseen parse {} xs =
      (\<lambda>i. parsedHostname parse (xs ! i) \<noteq> None \<and>
           (\<forall>j \<in> set [0..<i]. parsedHostname parse (xs ! j) \<noteq> parsedHostname parse (xs ! i)))"
    by (auto simp: firstUnseen_def fun_eq_iff)
  then have "fst (removeDuplicateDomains parse xs) = firstOfEachHostname parse xs"
    by (simp only: removeDuplicateDomains_def firstOfEachHostname_def kept_indices)
  moreover have "snd (removeDuplicateDomains parse xs) = List.map_filter (parseError parse) xs"
    by (simp only: removeDuplicateDomains_def logged_errors)
  ultimately show ?thesis by (simp add: prod_eq_iff)
qed


theorem removeDuplicateDomains_witness:
  "map key (fst (removeDuplicateDomains exampleParse (rankedSites exampleExt exampleState unsetCache))) =
     [Some ''k3'', Some ''k2''] \<and>
   snd (removeDuplicateDomains exampleParse (rankedSites exampleExt exampleState unsetCache)) =
     [''Invalid URL'']"
  unfolding removeDuplicateDomains_first_of_each_hostname
  by code_simp

text \<open>
  C10. A record whose location is absent or empty is dropped by the deduplicator before
  its location is parsed: the result and the log are those of the input without such
  records. So every record the deduplicator keeps has a location, and every entry of the
  emitted grid has a location unless it is a pinned entry or a static catalog entry.
\<close>

theorem no_location_never_ranked:
  "removeDuplicateDomains parse xs =
     removeDuplicateDomains parse (filter (\<lambda>s. truthyLocation s \<noteq> None) xs) \<and>
   (\<forall>s \<in> set (fst (removeDuplicateDomains parse xs)). truthyLocation s \<noteq> None) \<and>
   (\<forall>g \<in> set (grid (getTopSiteData ext st c)).
      truthyLocation g \<noteq> None \<or>
      g \<in> set (dropEmpty (getPinnedTopSites st)) \<or>
      g \<in> set (preDefined ext st))"
proof -
  have a: "removeDuplicateDomains parse xs =
     removeDuplicateDomains parse (filter (\<lambda>s. truthyLocation s \<noteq> None) xs)"
    unfolding removeDuplicateDomains_def by (rule without_location_skipped)
  have b: "\<forall>s \<in> set (fst (removeDuplicateDomains parse xs)). truthyLocation s \<noteq> None" for parse :: "string \<Rightarrow> 'x + 'y" and xs
    unfolding removeDuplicateDomains_def by (rule kept_have_location)
  have "truthyLocation g \<noteq> None \<or> g \<in> set (dropEmpty (getPinnedTopSites st)) \<or>
      g \<in> set (preDefined ext st)" if g: "g \<in> set (grid (getTopSiteData ext st c))" for g
  proof -
    let ?kept = "fst (removeDuplicateDomains (urlParse ext) (rankedSites ext st c))"
    from g set_gridSlots [of "getPinnedTopSites st" "withPreDefined ext st ?kept"]
    have "g \<in> set (dropEmpty (getPinnedTopSites st)) \<or> g \<in> set (withPreDefined ext st ?kept)"
      by (auto simp only: grid_getTopSiteData)
    then have "g \<in> set (dropEmpty (getPinnedTopSites st)) \<or> g \<in> set ?kept \<or>
        g \<in> set (preDefined ext st)"
      by (auto simp: withPreDefined_def split: if_splits)
    with b [of "urlParse ext" "rankedSites ext st c"] show ?thesis by blast
  qed
  with a b show ?thesis by blast
qed


theorem no_location_never_ranked_witness:
  "truthyLocation (rankedSites exampleExt exampleState unsetCache ! 0) = None \<and>
   rankedSites exampleExt exampleState unsetCache ! 0 \<notin>
     set (grid (getTopSiteData exampleExt exampleState unsetCache))"
proof -
  let ?top = "rankedSites exampleExt exampleState unsetCache ! 0"
  have none: "truthyLocation ?top = None"
    by code_simp
  have pin: "?top \<notin> set (dropEmpty (getPinnedTopSites exampleState))"
    by code_simp
  have pre: "?top \<notin> set (preDefined exampleExt exampleState)"
    by code_simp
  from no_location_never_ranked [of exampleParse "[]" exampleExt exampleState unsetCache]
    none pin pre
  show ?thesis by blast
qed

end
